theory Spec2Isabelle
  imports Main
begin

section \<open>Data of main.go\<close>

text \<open>
  The structs \<open>Task\<close> and \<open>Message\<close>. Both have fields called \<open>ID\<close> and \<open>Task\<close>, so
  every field carries the name of its struct as a prefix. A Go \<open>int\<close> is a 64-bit
  two's complement number on the usual platforms; fields hold the number as an
  \<open>int\<close>, \<open>int64_range\<close> says which values a field can really hold, and
  \<open>wrap_int64\<close> is written out where the program computes with them.
\<close>

record Task =
  Task_ID :: int
  Task_Task :: string
  Task_URL :: string
  Task_SleepDuration :: int

record Message =
  Message_ID :: int
  Message_Message :: string
  Message_Task :: Task

definition int64_range :: "int \<Rightarrow> bool" where
  "int64_range v = (- (2 ^ 63) \<le> v \<and> v < 2 ^ 63)"

definition wrap_int64 :: "int \<Rightarrow> int" where
  "wrap_int64 v = (v + 2 ^ 63) mod 2 ^ 64 - 2 ^ 63"

text \<open>
  What the program writes: lines on standard output (the \<open>fmt.Print\<close> calls, one
  constructor for each format string) and HTTP responses (status code and body;
  \<open>http.Error\<close> sends a plain text, the other bodies are the JSON encoding of a
  map, of the counter or of a record).
\<close>

datatype out_line =
    ServerRunning
  | TaskReceived int
  | ErrorFetching string string
  | Fetched string string
  | Sleeping int
  | TaskCompleted int
  | CounterIncremented int

datatype body =
    ErrorText string
  | StatusJSON string
  | TaskCounterJSON int
  | MessageJSON Message
  | NoBody

type_synonym response = "nat \<times> body"

definition StatusOK :: nat where "StatusOK = 200"
definition StatusCreated :: nat where "StatusCreated = 201"
definition StatusAccepted :: nat where "StatusAccepted = 202"
definition StatusBadRequest :: nat where "StatusBadRequest = 400"
definition StatusNotFound :: nat where "StatusNotFound = 404"
definition StatusMethodNotAllowed :: nat where "StatusMethodNotAllowed = 405"
definition StatusInternalServerError :: nat where "StatusInternalServerError = 500"

section \<open>processTask\<close>

text \<open>
  \<open>processTask\<close> only acts on the world, so its value is the list of what it does, in
  order. \<open>http.Get\<close> is the network's answer: \<open>Inl err\<close> or \<open>Inr status\<close> (the
  \<open>resp.Status\<close> that is printed); the answer is an argument, consulted only when
  the URL is not empty. \<open>time.Duration\<close> is an \<open>int64\<close> of nanoseconds and
  \<open>time.Second\<close> is \<open>1000000000\<close>; the product wraps around as Go's \<open>*\<close> does.
  \<open>time.Sleep d\<close> pauses for \<open>d\<close> nanoseconds and returns at once when \<open>d\<close> is
  negative or zero (\<open>time_Sleep_pause\<close>).
\<close>

datatype effect =
    Print out_line
  | HttpGet string
  | BodyClose
  | Sleep int

definition Second :: int where
  "Second = 1000000000"

definition time_Sleep_pause :: "int \<Rightarrow> int" where
  "time_Sleep_pause d = (if d \<le> 0 then 0 else d)"

definition processTask :: "string + string \<Rightarrow> Task \<Rightarrow> effect list" where
  "processTask got t =
     (if Task_URL t \<noteq> [] then
        HttpGet (Task_URL t) #
        (case got of
           Inl err \<Rightarrow> [Print (ErrorFetching (Task_URL t) err)]
         | Inr status \<Rightarrow> [Print (Fetched (Task_URL t) status), BodyClose])
      else [])
     @ (if Task_SleepDuration t > 0 then
          [Print (Sleeping (Task_SleepDuration t)),
           Sleep (wrap_int64 (Task_SleepDuration t * Second))]
        else [])
     @ [Print (TaskCompleted (Task_ID t))]"

fun printed :: "effect list \<Rightarrow> out_line list" where
  "printed [] = []"
| "printed (Print x # es) = x # printed es"
| "printed (e # es) = printed es"

fun fetches :: "effect list \<Rightarrow> string list" where
  "fetches [] = []"
| "fetches (HttpGet u # es) = u # fetches es"
| "fetches (e # es) = fetches es"

fun pauses :: "effect list \<Rightarrow> int list" where
  "pauses [] = []"
| "pauses (Sleep d # es) = time_Sleep_pause d # pauses es"
| "pauses (e # es) = pauses es"

section \<open>The record store\<close>

text \<open>
  \<open>strconv.Atoi\<close>, from the Go library: an optional sign, then one or more decimal
  digits and nothing else, and the number must fit an \<open>int\<close>; every other string
  is an error (\<open>None\<close>).
\<close>

definition is_digit :: "char \<Rightarrow> bool" where
  "is_digit c = (48 \<le> (of_char c :: nat) \<and> (of_char c :: nat) \<le> 57)"

fun parse_digits :: "string \<Rightarrow> nat \<Rightarrow> nat option" where
  "parse_digits [] n = Some n"
| "parse_digits (c # cs) n =
     (if is_digit c then parse_digits cs (n * 10 + (of_char c - 48)) else None)"

definition Atoi :: "string \<Rightarrow> int option" where
  "Atoi s =
     (case s of
        [] \<Rightarrow> None
      | c # cs \<Rightarrow>
          (let ds = (if c = CHR ''-'' \<or> c = CHR ''+'' then cs else s) in
           if ds = [] then None
           else (case parse_digits ds 0 of
                   None \<Rightarrow> None
                 | Some n \<Rightarrow>
                     (let v = (if c = CHR ''-'' then - int n else int n) in
                      if int64_range v then Some v else None))))"

text \<open>
  The store is the map \<open>messages\<close> with \<open>nextID\<close>. Each handler holds
  \<open>messagesMu\<close> from its first access of the store to its return, so a handler is
  one function from the store to the response and the new store. The path is
  \<open>r.URL.Path\<close>; the slice \<open>Path[len("/messages/"):]\<close> panics on a shorter path
  (\<open>None\<close>), which the route \<open>/messages/\<close> never delivers. \<open>json.Unmarshal\<close> into a
  \<open>Message\<close> is an argument of the POST handler.
\<close>

record store =
  messages :: "int \<rightharpoonup> Message"
  nextID :: int

definition messages_prefix :: string where
  "messages_prefix = ''/messages/''"

definition handleGetMessage :: "string \<Rightarrow> store \<Rightarrow> (response \<times> store) option" where
  "handleGetMessage path st =
     (if length path < length messages_prefix then None
      else (case Atoi (drop (length messages_prefix) path) of
              None \<Rightarrow> Some ((StatusBadRequest, ErrorText ''Invalid message ID''), st)
            | Some i \<Rightarrow>
                (case messages st i of
                   None \<Rightarrow> Some ((StatusNotFound, ErrorText ''Message not found''), st)
                 | Some p \<Rightarrow> Some ((StatusOK, MessageJSON p), st))))"

definition handlePostMessage ::
  "(string \<Rightarrow> Message option) \<Rightarrow> string option \<Rightarrow> store \<Rightarrow> (response \<times> store) option" where
  "handlePostMessage unmarshal read st =
     (case read of
        None \<Rightarrow> Some ((StatusInternalServerError, ErrorText ''Error reading request body''), st)
      | Some b \<Rightarrow>
          (case unmarshal b of
             None \<Rightarrow> Some ((StatusBadRequest, ErrorText ''Error parsing request body''), st)
           | Some m0 \<Rightarrow>
               (let m = m0\<lparr>Message_ID := nextID st\<rparr> in
                Some ((StatusCreated, MessageJSON m),
                      st\<lparr>nextID := wrap_int64 (nextID st + 1),
                         messages := (messages st)(Message_ID m \<mapsto> m)\<rparr>))))"

definition handleDeleteMessage :: "string \<Rightarrow> store \<Rightarrow> (response \<times> store) option" where
  "handleDeleteMessage path st =
     (if length path < length messages_prefix then None
      else (case Atoi (drop (length messages_prefix) path) of
              None \<Rightarrow> Some ((StatusBadRequest, ErrorText ''Invalid message ID''), st)
            | Some i \<Rightarrow>
                (case messages st i of
                   None \<Rightarrow> Some ((StatusNotFound, ErrorText ''Message not found''), st)
                 | Some p \<Rightarrow>
                     Some ((StatusOK, NoBody), st\<lparr>messages := (messages st)(i := None)\<rparr>))))"

definition messageHandler ::
  "(string \<Rightarrow> Message option) \<Rightarrow> string \<Rightarrow> string \<Rightarrow> string option \<Rightarrow> store
     \<Rightarrow> (response \<times> store) option" where
  "messageHandler unmarshal method path read st =
     (if method = ''GET'' then handleGetMessage path st
      else if method = ''POST'' then handlePostMessage unmarshal read st
      else if method = ''DELETE'' then handleDeleteMessage path st
      else Some ((StatusMethodNotAllowed, ErrorText ''Method not allowed''), st))"

section \<open>The dispatch core\<close>

text \<open>
  The goroutines of the program run interleaved. A state holds the package variables and,
  for every goroutine, the point its code has reached; an action is one goroutine doing
  its next operation on shared state, and \<open>step\<close> is \<open>None\<close> where that operation
  blocks.

  \<^item> \<open>taskQueue\<close> is the buffered channel of capacity 1000, oldest task first.
  \<^item> \<open>wg\<close> is the counter of the \<open>sync.WaitGroup\<close>; \<open>Wait\<close> returns when it is 0.
  \<^item> \<open>counterChan\<close> has no buffer: a send happens together with the receive of
    \<open>counter\<close>, which then holds the value (\<open>CAdd v\<close>) until it has run
    \<open>taskCounter += increment\<close>.
  \<^item> \<open>main\<close> starts 10000 workers. They run the same loop and differ in nothing, so
    \<open>idle\<close> counts the workers waiting at \<open>range taskQueue\<close>, and \<open>taken\<close> lists the
    tasks received so far, in the order of receipt, each with the point reached by the
    code that handles it: the worker before \<open>wg.Add(1)\<close> (\<open>AtAdd\<close>) and before the
    \<open>go\<close> statement (\<open>AtGo\<close>), then the launched goroutine before \<open>processTask\<close>
    (\<open>AtProcess\<close>), at \<open>counterChan <- 1\<close> (\<open>AtSend\<close>), before the deferred
    \<open>wg.Done()\<close> (\<open>AtDone\<close>) and after it (\<open>Exited\<close>).
  \<^item> \<open>handlers\<close> lists the HTTP requests to \<open>/run/\<close>, \<open>/wait/\<close> and \<open>/count/\<close> in the
    order of arrival, each with the point its handler has reached: \<open>handleRun\<close> before
    \<open>messagesMu.Lock()\<close> with the decoded task and count, \<open>handleRun\<close> in its loop with
    the task, \<open>i\<close> and the count, \<open>waitHandler\<close> at \<open>wg.Wait()\<close>, or returned with
    its response. \<open>json.Unmarshal\<close> into the request struct is an argument of the model.
  \<^item> \<open>stdout\<close> is what has been printed. \<open>hist\<close> is not a variable of the program: it
    records which operations have happened, so that properties of a whole run can be
    stated on a state.

  \<open>taskCounter\<close>, \<open>wg\<close> and the loop variable are unbounded integers here: the loop
  variable stays below the count, and the two counters would need \<open>2 ^ 63\<close> completed tasks
  or \<open>2 ^ 31\<close> outstanding ones to wrap.
\<close>

datatype request =
    RunReq string "string option"
  | WaitReq
  | CountReq

datatype hstate =
    HRunLock Task int
  | HRunLoop Task int int
  | HWait
  | HDone response

datatype loc = AtAdd | AtGo | AtProcess | AtSend | AtDone | Exited

datatype cstate = CRecv | CAdd int

datatype event =
    EvEnq nat Task
  | EvDeq nat Task
  | EvAdd nat
  | EvLaunch nat
  | EvReturn nat
  | EvSignal nat
  | EvDone nat
  | EvCount

record state =
  taskQueue :: "Task list"
  wg :: int
  taskCounter :: int
  messagesMu :: bool
  counter :: cstate
  idle :: nat
  handlers :: "(request \<times> hstate) list"
  taken :: "(Task \<times> loc) list"
  stdout :: "out_line list"
  hist :: "event list"

definition capacity :: nat where
  "capacity = 1000"

definition pool_size :: nat where
  "pool_size = 10000"

definition init :: state where
  "init = \<lparr>taskQueue = [], wg = 0, taskCounter = 0, messagesMu = False, counter = CRecv,
           idle = pool_size, handlers = [], taken = [], stdout = [ServerRunning], hist = []\<rparr>"

type_synonym unmarshal = "string \<Rightarrow> (Task \<times> int) option"

definition handleRun :: "unmarshal \<Rightarrow> string option \<Rightarrow> hstate" where
  "handleRun u read =
     (case read of
        None \<Rightarrow> HDone (StatusInternalServerError, ErrorText ''Error reading request body'')
      | Some b \<Rightarrow>
          (case u b of
             None \<Rightarrow> HDone (StatusBadRequest, ErrorText ''Error parsing request body'')
           | Some rq \<Rightarrow> HRunLock (fst rq) (snd rq)))"

definition runHandler :: "unmarshal \<Rightarrow> string \<Rightarrow> string option \<Rightarrow> hstate" where
  "runHandler u method read =
     (if method = ''POST'' then handleRun u read
      else HDone (StatusMethodNotAllowed, ErrorText ''Method not allowed''))"

definition countHandler :: "state \<Rightarrow> hstate" where
  "countHandler s = HDone (StatusOK, TaskCounterJSON (taskCounter s))"

definition arrive :: "unmarshal \<Rightarrow> request \<Rightarrow> state \<Rightarrow> hstate" where
  "arrive u rq s =
     (case rq of
        RunReq method read \<Rightarrow> runHandler u method read
      | WaitReq \<Rightarrow> HWait
      | CountReq \<Rightarrow> countHandler s)"

definition hstate_at :: "state \<Rightarrow> nat \<Rightarrow> hstate option" where
  "hstate_at s k = (if k < length (handlers s) then Some (snd (handlers s ! k)) else None)"

definition set_hstate :: "nat \<Rightarrow> hstate \<Rightarrow> state \<Rightarrow> state" where
  "set_hstate k h s = s\<lparr>handlers := (handlers s)[k := (fst (handlers s ! k), h)]\<rparr>"

definition loc_at :: "state \<Rightarrow> nat \<Rightarrow> loc option" where
  "loc_at s j = (if j < length (taken s) then Some (snd (taken s ! j)) else None)"

definition set_loc :: "nat \<Rightarrow> loc \<Rightarrow> state \<Rightarrow> state" where
  "set_loc j l s = s\<lparr>taken := (taken s)[j := (fst (taken s ! j), l)]\<rparr>"

definition record_ev :: "event \<Rightarrow> state \<Rightarrow> state" where
  "record_ev e s = s\<lparr>hist := hist s @ [e]\<rparr>"

datatype action =
    Request request
  | Acquire nat
  | Send nat
  | Respond nat
  | WaitReturn nat
  | Dequeue
  | Register nat
  | Launch nat
  | Process nat "string + string"
  | Signal nat
  | Finish nat
  | CounterAdd

text \<open>
  \<open>Request\<close>: a request arrives and its handler runs up to its first operation on shared
  state. \<open>Acquire\<close>, \<open>Send\<close>, \<open>Respond\<close>: \<open>handleRun\<close> locks \<open>messagesMu\<close>, sends one
  task (blocked while the queue holds 1000), and leaves the loop, writes 202 and unlocks.
  \<open>WaitReturn\<close>: \<open>wg.Wait()\<close> returns and \<open>waitHandler\<close> writes 200.
  \<open>Dequeue\<close>, \<open>Register\<close>, \<open>Launch\<close>: a worker receives a task and prints it, calls
  \<open>wg.Add(1)\<close>, and starts the goroutine and goes back to the queue.
  \<open>Process\<close>, \<open>Signal\<close>, \<open>Finish\<close>: the goroutine runs \<open>processTask\<close> to its end, sends 1
  on \<open>counterChan\<close>, and runs the deferred \<open>wg.Done()\<close>.
  \<open>CounterAdd\<close>: \<open>counter\<close> adds the received value to \<open>taskCounter\<close>.
\<close>

fun step :: "unmarshal \<Rightarrow> action \<Rightarrow> state \<Rightarrow> state option" where
  "step u (Request rq) s = Some (s\<lparr>handlers := handlers s @ [(rq, arrive u rq s)]\<rparr>)"
| "step u (Acquire k) s =
     (case hstate_at s k of
        Some (HRunLock t c) \<Rightarrow>
          if messagesMu s then None
          else Some (set_hstate k (HRunLoop t 0 c) (s\<lparr>messagesMu := True\<rparr>))
      | _ \<Rightarrow> None)"
| "step u (Send k) s =
     (case hstate_at s k of
        Some (HRunLoop t i c) \<Rightarrow>
          if i < c \<and> length (taskQueue s) < capacity
          then Some (record_ev (EvEnq k t)
                 (set_hstate k (HRunLoop t (i + 1) c) (s\<lparr>taskQueue := taskQueue s @ [t]\<rparr>)))
          else None
      | _ \<Rightarrow> None)"
| "step u (Respond k) s =
     (case hstate_at s k of
        Some (HRunLoop t i c) \<Rightarrow>
          if i < c then None
          else Some (set_hstate k (HDone (StatusAccepted, StatusJSON ''tasks queued''))
                 (s\<lparr>messagesMu := False\<rparr>))
      | _ \<Rightarrow> None)"
| "step u (WaitReturn k) s =
     (case hstate_at s k of
        Some HWait \<Rightarrow>
          if wg s = 0
          then Some (set_hstate k (HDone (StatusOK, StatusJSON ''all tasks completed'')) s)
          else None
      | _ \<Rightarrow> None)"
| "step u Dequeue s =
     (case taskQueue s of
        [] \<Rightarrow> None
      | t # q \<Rightarrow>
          if idle s = 0 then None
          else Some (record_ev (EvDeq (length (taken s)) t)
                 (s\<lparr>taskQueue := q, idle := idle s - 1, taken := taken s @ [(t, AtAdd)],
                    stdout := stdout s @ [TaskReceived (Task_ID t)]\<rparr>)))"
| "step u (Register j) s =
     (case loc_at s j of
        Some AtAdd \<Rightarrow> Some (record_ev (EvAdd j) (set_loc j AtGo (s\<lparr>wg := wg s + 1\<rparr>)))
      | _ \<Rightarrow> None)"
| "step u (Launch j) s =
     (case loc_at s j of
        Some AtGo \<Rightarrow> Some (record_ev (EvLaunch j) (set_loc j AtProcess (s\<lparr>idle := idle s + 1\<rparr>)))
      | _ \<Rightarrow> None)"
| "step u (Process j got) s =
     (case loc_at s j of
        Some AtProcess \<Rightarrow>
          Some (record_ev (EvReturn j)
            (set_loc j AtSend
               (s\<lparr>stdout := stdout s @ printed (processTask got (fst (taken s ! j)))\<rparr>)))
      | _ \<Rightarrow> None)"
| "step u (Signal j) s =
     (case loc_at s j of
        Some AtSend \<Rightarrow>
          if counter s = CRecv
          then Some (record_ev (EvSignal j) (set_loc j AtDone (s\<lparr>counter := CAdd 1\<rparr>)))
          else None
      | _ \<Rightarrow> None)"
| "step u (Finish j) s =
     (case loc_at s j of
        Some AtDone \<Rightarrow> Some (record_ev (EvDone j) (set_loc j Exited (s\<lparr>wg := wg s - 1\<rparr>)))
      | _ \<Rightarrow> None)"
| "step u CounterAdd s =
     (case counter s of
        CRecv \<Rightarrow> None
      | CAdd increment \<Rightarrow>
          Some (record_ev EvCount
            (s\<lparr>taskCounter := taskCounter s + increment, counter := CRecv\<rparr>)))"

fun run :: "unmarshal \<Rightarrow> action list \<Rightarrow> state \<Rightarrow> state option" where
  "run u [] s = Some s"
| "run u (a # as) s = (case step u a s of None \<Rightarrow> None | Some s' \<Rightarrow> run u as s')"

fun internal :: "action \<Rightarrow> bool" where
  "internal (Request rq) = False"
| "internal a = True"

text \<open>
  \<open>incrementCounter\<close> is defined in the program and called from nowhere: no action runs
  it. It is the only code that prints \<open>CounterIncremented\<close>.
\<close>

definition incrementCounter :: "state \<Rightarrow> state" where
  "incrementCounter s =
     s\<lparr>taskCounter := taskCounter s + 1,
       stdout := stdout s @ [CounterIncremented (taskCounter s + 1)]\<rparr>"

section \<open>Observations on a state\<close>

text \<open>What the history says: the tasks sent to the queue (by all handlers, by one handler),
  the tasks received from it, and the operations on the task received as number \<open>j\<close>.\<close>

definition enq_of :: "event \<Rightarrow> Task list" where
  "enq_of e = (case e of EvEnq k t \<Rightarrow> [t] | _ \<Rightarrow> [])"

definition enq_by :: "nat \<Rightarrow> event \<Rightarrow> Task list" where
  "enq_by k e = (case e of EvEnq k' t \<Rightarrow> if k' = k then [t] else [] | _ \<Rightarrow> [])"

definition deq_of :: "event \<Rightarrow> Task list" where
  "deq_of e = (case e of EvDeq j t \<Rightarrow> [t] | _ \<Rightarrow> [])"

definition enq_tasks :: "event list \<Rightarrow> Task list" where
  "enq_tasks h = concat (map enq_of h)"

definition sends_of :: "nat \<Rightarrow> event list \<Rightarrow> Task list" where
  "sends_of k h = concat (map (enq_by k) h)"

definition deq_tasks :: "event list \<Rightarrow> Task list" where
  "deq_tasks h = concat (map deq_of h)"

definition about :: "nat \<Rightarrow> event \<Rightarrow> bool" where
  "about j e =
     (case e of
        EvEnq k t \<Rightarrow> False
      | EvDeq j' t \<Rightarrow> j' = j
      | EvAdd j' \<Rightarrow> j' = j
      | EvLaunch j' \<Rightarrow> j' = j
      | EvReturn j' \<Rightarrow> j' = j
      | EvSignal j' \<Rightarrow> j' = j
      | EvDone j' \<Rightarrow> j' = j
      | EvCount \<Rightarrow> False)"

definition proj :: "nat \<Rightarrow> event list \<Rightarrow> event list" where
  "proj j h = filter (about j) h"

definition is_EvAdd :: "event \<Rightarrow> bool" where
  "is_EvAdd e = (case e of EvAdd j \<Rightarrow> True | _ \<Rightarrow> False)"

definition is_EvDone :: "event \<Rightarrow> bool" where
  "is_EvDone e = (case e of EvDone j \<Rightarrow> True | _ \<Rightarrow> False)"

definition is_EvSignal :: "event \<Rightarrow> bool" where
  "is_EvSignal e = (case e of EvSignal j \<Rightarrow> True | _ \<Rightarrow> False)"

definition occurrences :: "(event \<Rightarrow> bool) \<Rightarrow> event list \<Rightarrow> int" where
  "occurrences P h = int (length (filter P h))"

text \<open>The life of a task after its receipt, and how much of it lies behind each point.\<close>

definition lifecycle :: "nat \<Rightarrow> Task \<Rightarrow> event list" where
  "lifecycle j t = [EvDeq j t, EvAdd j, EvLaunch j, EvReturn j, EvSignal j, EvDone j]"

fun stage :: "loc \<Rightarrow> nat" where
  "stage AtAdd = 1"
| "stage AtGo = 2"
| "stage AtProcess = 3"
| "stage AtSend = 4"
| "stage AtDone = 5"
| "stage Exited = 6"

text \<open>Counting the entries of a list by weight.\<close>

definition wsum :: "('a \<Rightarrow> int) \<Rightarrow> 'a list \<Rightarrow> int" where
  "wsum f xs = sum_list (map f xs)"

definition indicator :: "('a \<Rightarrow> bool) \<Rightarrow> 'a \<Rightarrow> int" where
  "indicator P x = (if P x then 1 else 0)"

definition count_loc :: "(loc \<Rightarrow> bool) \<Rightarrow> state \<Rightarrow> int" where
  "count_loc P s = wsum (indicator (\<lambda>x. P (snd x))) (taken s)"

text \<open>
  \<open>registered\<close>: \<open>wg.Add(1)\<close> has run for the task and \<open>wg.Done()\<close> has not.
  \<open>in_flight\<close>: the goroutine of the task has been launched and has not returned.
  \<open>held\<close>: a worker is between the receipt of the task and the \<open>go\<close> statement.
  \<open>unsignalled\<close>: the task has been received and its 1 has not been sent to \<open>counter\<close>.
\<close>

definition registered :: "loc \<Rightarrow> bool" where
  "registered l = (l = AtGo \<or> l = AtProcess \<or> l = AtSend \<or> l = AtDone)"

definition in_flight :: "loc \<Rightarrow> bool" where
  "in_flight l = (l = AtProcess \<or> l = AtSend \<or> l = AtDone)"

definition held :: "loc \<Rightarrow> bool" where
  "held l = (l = AtAdd \<or> l = AtGo)"

definition unsignalled :: "loc \<Rightarrow> bool" where
  "unsignalled l = (l = AtAdd \<or> l = AtGo \<or> l = AtProcess \<or> l = AtSend)"

definition pending_add :: "cstate \<Rightarrow> int" where
  "pending_add c = (case c of CRecv \<Rightarrow> 0 | CAdd v \<Rightarrow> 1)"

definition is_loop :: "request \<times> hstate \<Rightarrow> bool" where
  "is_loop x = (case snd x of HRunLoop t i c \<Rightarrow> True | _ \<Rightarrow> False)"

definition is_done :: "request \<times> hstate \<Rightarrow> bool" where
  "is_done x = (case snd x of HDone r \<Rightarrow> True | _ \<Rightarrow> False)"

text \<open>
  A state is quiescent when every handler has returned, the queue is empty, every received
  task has run to the end of its goroutine and \<open>counter\<close> waits at its channel.
\<close>

definition quiescent :: "state \<Rightarrow> bool" where
  "quiescent s =
     (list_all is_done (handlers s) \<and> taskQueue s = [] \<and>
      list_all (\<lambda>x. snd x = Exited) (taken s) \<and> counter s = CRecv)"

text \<open>
  The number of internal actions still ahead: a task costs 8 actions from its send to the
  end of its goroutine, and less the further it is.
\<close>

definition hweight :: "request \<times> hstate \<Rightarrow> int" where
  "hweight x =
     (case snd x of
        HRunLock t c \<Rightarrow> 2 + 8 * max 0 c
      | HRunLoop t i c \<Rightarrow> 1 + 8 * max 0 (c - i)
      | HWait \<Rightarrow> 1
      | HDone r \<Rightarrow> 0)"

fun lweight :: "loc \<Rightarrow> int" where
  "lweight AtAdd = 6"
| "lweight AtGo = 5"
| "lweight AtProcess = 4"
| "lweight AtSend = 3"
| "lweight AtDone = 1"
| "lweight Exited = 0"

definition remaining :: "state \<Rightarrow> int" where
  "remaining s =
     wsum hweight (handlers s) + 7 * int (length (taskQueue s))
     + wsum (\<lambda>x. lweight (snd x)) (taken s) + pending_add (counter s)"

text \<open>
  What a handler may have sent, by its request and the point it has reached: \<open>sent\<close> is
  the list of its sends so far.
\<close>

definition handler_ok :: "unmarshal \<Rightarrow> Task list \<Rightarrow> request \<times> hstate \<Rightarrow> bool" where
  "handler_ok u sent x =
     (case fst x of
        RunReq method read \<Rightarrow>
          (case snd x of
             HRunLock t c \<Rightarrow>
               method = ''POST'' \<and> map_option u read = Some (Some (t, c)) \<and> sent = []
           | HRunLoop t i c \<Rightarrow>
               method = ''POST'' \<and> map_option u read = Some (Some (t, c)) \<and>
               0 \<le> i \<and> i \<le> max 0 c \<and> sent = replicate (nat i) t
           | HWait \<Rightarrow> False
           | HDone r \<Rightarrow>
               (if method \<noteq> ''POST''
                then r = (StatusMethodNotAllowed, ErrorText ''Method not allowed'') \<and> sent = []
                else (case read of
                        None \<Rightarrow>
                          r = (StatusInternalServerError, ErrorText ''Error reading request body'')
                          \<and> sent = []
                      | Some b \<Rightarrow>
                          (case u b of
                             None \<Rightarrow>
                               r = (StatusBadRequest, ErrorText ''Error parsing request body'')
                               \<and> sent = []
                           | Some rq \<Rightarrow>
                               r = (StatusAccepted, StatusJSON ''tasks queued'') \<and>
                               sent = replicate (nat (snd rq)) (fst rq)))))
      | WaitReq \<Rightarrow>
          (snd x = HWait \<or> snd x = HDone (StatusOK, StatusJSON ''all tasks completed''))
          \<and> sent = []
      | CountReq \<Rightarrow>
          (case snd x of HDone r \<Rightarrow> fst r = StatusOK \<and> r \<noteq> (StatusOK, NoBody) | _ \<Rightarrow> False)
          \<and> sent = [])"

section \<open>Invariants\<close>

text \<open>
  Each of the following holds in the initial state and is kept by every action.
  \<open>life\<close> lists the operations behind a task at each point; it is the beginning of
  \<open>lifecycle\<close> of length \<open>stage\<close>.
\<close>

definition inv_wg :: "state \<Rightarrow> bool" where
  "inv_wg s = (wg s = count_loc registered s)"

definition inv_pool :: "state \<Rightarrow> bool" where
  "inv_pool s = (int (idle s) + count_loc held s = int pool_size)"

definition inv_counter :: "state \<Rightarrow> bool" where
  "inv_counter s = (counter s = CRecv \<or> counter s = CAdd 1)"

definition inv_hist :: "state \<Rightarrow> bool" where
  "inv_hist s =
     (wg s = occurrences is_EvAdd (hist s) - occurrences is_EvDone (hist s) \<and>
      taskCounter s + pending_add (counter s) = occurrences is_EvSignal (hist s))"

definition inv_total :: "state \<Rightarrow> bool" where
  "inv_total s =
     (int (length (enq_tasks (hist s))) =
        taskCounter s + pending_add (counter s) + count_loc unsignalled s
        + int (length (taskQueue s)))"

definition inv_fifo :: "state \<Rightarrow> bool" where
  "inv_fifo s =
     (length (taskQueue s) \<le> capacity \<and>
      deq_tasks (hist s) = map fst (taken s) \<and>
      deq_tasks (hist s) @ taskQueue s = enq_tasks (hist s))"

fun life :: "nat \<Rightarrow> Task \<Rightarrow> loc \<Rightarrow> event list" where
  "life j t AtAdd = [EvDeq j t]"
| "life j t AtGo = [EvDeq j t, EvAdd j]"
| "life j t AtProcess = [EvDeq j t, EvAdd j, EvLaunch j]"
| "life j t AtSend = [EvDeq j t, EvAdd j, EvLaunch j, EvReturn j]"
| "life j t AtDone = [EvDeq j t, EvAdd j, EvLaunch j, EvReturn j, EvSignal j]"
| "life j t Exited = [EvDeq j t, EvAdd j, EvLaunch j, EvReturn j, EvSignal j, EvDone j]"

definition inv_life :: "state \<Rightarrow> bool" where
  "inv_life s =
     (\<forall>j. proj j (hist s) =
        (if j < length (taken s) then life j (fst (taken s ! j)) (snd (taken s ! j)) else []))"

definition inv_stdout :: "state \<Rightarrow> bool" where
  "inv_stdout s = (\<forall>n. CounterIncremented n \<notin> set (stdout s))"

definition inv_mu :: "state \<Rightarrow> bool" where
  "inv_mu s = (wsum (indicator is_loop) (handlers s) = (if messagesMu s then 1 else 0))"

definition inv_handlers :: "unmarshal \<Rightarrow> state \<Rightarrow> bool" where
  "inv_handlers u s =
     (\<forall>k. if k < length (handlers s) then handler_ok u (sends_of k (hist s)) (handlers s ! k)
          else sends_of k (hist s) = [])"

section \<open>Lists, steps and runs\<close>

lemma wsum_Nil: "wsum f [] = 0"
  by (simp add: wsum_def)

lemma wsum_append: "wsum f (xs @ ys) = wsum f xs + wsum f ys"
  by (simp add: wsum_def)

lemma wsum_single: "wsum f [x] = f x"
  by (simp add: wsum_def)

lemma wsum_update: "j < length xs \<Longrightarrow> wsum f (xs[j := y]) = wsum f xs - f (xs ! j) + f y"
proof (induction xs arbitrary: j)
  case Nil
  then show ?case by simp
next
  case (Cons x xs)
  then show ?case by (cases j) (simp_all add: wsum_def)
qed

lemma wsum_nonneg: "(\<And>x. 0 \<le> f x) \<Longrightarrow> 0 \<le> wsum f xs"
  by (induction xs) (simp_all add: wsum_def add_nonneg_nonneg)

lemma wsum_pos_ex: "(\<And>x. 0 \<le> f x) \<Longrightarrow> 0 < wsum f xs \<Longrightarrow> \<exists>j<length xs. 0 < f (xs ! j)"
proof (induction xs)
  case Nil
  then show ?case by (simp add: wsum_def)
next
  case (Cons x xs)
  show ?case
  proof (cases "0 < f x")
    case True
    then show ?thesis by (intro exI[of _ 0]) simp
  next
    case False
    with Cons.prems(1)[of x] have "f x = 0" by simp
    with Cons.prems(2) have "0 < wsum f xs" by (simp add: wsum_def)
    from Cons.IH[OF Cons.prems(1) this] obtain j where "j < length xs" "0 < f (xs ! j)" by blast
    then show ?thesis by (intro exI[of _ "Suc j"]) simp
  qed
qed

lemma wsum_zero_all: "(\<And>x. 0 \<le> f x) \<Longrightarrow> wsum f xs = 0 \<Longrightarrow> j < length xs \<Longrightarrow> f (xs ! j) = 0"
proof (induction xs arbitrary: j)
  case Nil
  then show ?case by simp
next
  case (Cons x xs)
  have "0 \<le> f x" "0 \<le> wsum f xs"
    using Cons.prems(1) wsum_nonneg[of f xs] by auto
  moreover have "f x + wsum f xs = 0"
    using Cons.prems(2) by (simp add: wsum_def)
  ultimately have "f x = 0" "wsum f xs = 0" by linarith+
  with Cons show ?case by (cases j) auto
qed

lemma step_Request_iff:
  "step u (Request rq) s = Some s' \<longleftrightarrow> s' = s\<lparr>handlers := handlers s @ [(rq, arrive u rq s)]\<rparr>"
  by auto

lemma step_Acquire_iff:
  "step u (Acquire k) s = Some s' \<longleftrightarrow>
     (\<exists>t c. k < length (handlers s) \<and> snd (handlers s ! k) = HRunLock t c \<and> \<not> messagesMu s \<and>
       s' = s\<lparr>messagesMu := True,
              handlers := (handlers s)[k := (fst (handlers s ! k), HRunLoop t 0 c)]\<rparr>)"
  by (auto simp: hstate_at_def set_hstate_def split: option.splits hstate.splits if_splits)

lemma step_Send_iff:
  "step u (Send k) s = Some s' \<longleftrightarrow>
     (\<exists>t i c. k < length (handlers s) \<and> snd (handlers s ! k) = HRunLoop t i c \<and> i < c \<and>
       length (taskQueue s) < capacity \<and>
       s' = s\<lparr>taskQueue := taskQueue s @ [t],
              handlers := (handlers s)[k := (fst (handlers s ! k), HRunLoop t (i + 1) c)],
              hist := hist s @ [EvEnq k t]\<rparr>)"
  by (auto simp: hstate_at_def set_hstate_def record_ev_def split: option.splits hstate.splits if_splits)

lemma step_Respond_iff:
  "step u (Respond k) s = Some s' \<longleftrightarrow>
     (\<exists>t i c. k < length (handlers s) \<and> snd (handlers s ! k) = HRunLoop t i c \<and> \<not> i < c \<and>
       s' = s\<lparr>messagesMu := False,
              handlers := (handlers s)[k := (fst (handlers s ! k),
                             HDone (StatusAccepted, StatusJSON ''tasks queued''))]\<rparr>)"
  by (auto simp: hstate_at_def set_hstate_def split: option.splits hstate.splits if_splits)

lemma step_WaitReturn_iff:
  "step u (WaitReturn k) s = Some s' \<longleftrightarrow>
     (k < length (handlers s) \<and> snd (handlers s ! k) = HWait \<and> wg s = 0 \<and>
       s' = s\<lparr>handlers := (handlers s)[k := (fst (handlers s ! k),
                             HDone (StatusOK, StatusJSON ''all tasks completed''))]\<rparr>)"
  by (auto simp: hstate_at_def set_hstate_def split: option.splits hstate.splits if_splits)

lemma step_Dequeue_iff:
  "step u Dequeue s = Some s' \<longleftrightarrow>
     (\<exists>t q. taskQueue s = t # q \<and> 0 < idle s \<and>
       s' = s\<lparr>taskQueue := q, idle := idle s - 1, taken := taken s @ [(t, AtAdd)],
              stdout := stdout s @ [TaskReceived (Task_ID t)],
              hist := hist s @ [EvDeq (length (taken s)) t]\<rparr>)"
  by (auto simp: record_ev_def split: list.splits if_splits)

lemma step_Register_iff:
  "step u (Register j) s = Some s' \<longleftrightarrow>
     (j < length (taken s) \<and> snd (taken s ! j) = AtAdd \<and>
       s' = s\<lparr>wg := wg s + 1, taken := (taken s)[j := (fst (taken s ! j), AtGo)],
              hist := hist s @ [EvAdd j]\<rparr>)"
  by (auto simp: loc_at_def set_loc_def record_ev_def split: option.splits loc.splits if_splits)

lemma step_Launch_iff:
  "step u (Launch j) s = Some s' \<longleftrightarrow>
     (j < length (taken s) \<and> snd (taken s ! j) = AtGo \<and>
       s' = s\<lparr>idle := idle s + 1, taken := (taken s)[j := (fst (taken s ! j), AtProcess)],
              hist := hist s @ [EvLaunch j]\<rparr>)"
  by (auto simp: loc_at_def set_loc_def record_ev_def split: option.splits loc.splits if_splits)

lemma step_Process_iff:
  "step u (Process j got) s = Some s' \<longleftrightarrow>
     (j < length (taken s) \<and> snd (taken s ! j) = AtProcess \<and>
       s' = s\<lparr>taken := (taken s)[j := (fst (taken s ! j), AtSend)],
              stdout := stdout s @ printed (processTask got (fst (taken s ! j))),
              hist := hist s @ [EvReturn j]\<rparr>)"
  by (auto simp: loc_at_def set_loc_def record_ev_def split: option.splits loc.splits if_splits)

lemma step_Signal_iff:
  "step u (Signal j) s = Some s' \<longleftrightarrow>
     (j < length (taken s) \<and> snd (taken s ! j) = AtSend \<and> counter s = CRecv \<and>
       s' = s\<lparr>counter := CAdd 1, taken := (taken s)[j := (fst (taken s ! j), AtDone)],
              hist := hist s @ [EvSignal j]\<rparr>)"
  by (auto simp: loc_at_def set_loc_def record_ev_def split: option.splits loc.splits if_splits)

lemma step_Finish_iff:
  "step u (Finish j) s = Some s' \<longleftrightarrow>
     (j < length (taken s) \<and> snd (taken s ! j) = AtDone \<and>
       s' = s\<lparr>wg := wg s - 1, taken := (taken s)[j := (fst (taken s ! j), Exited)],
              hist := hist s @ [EvDone j]\<rparr>)"
  by (auto simp: loc_at_def set_loc_def record_ev_def split: option.splits loc.splits if_splits)

lemma step_CounterAdd_iff:
  "step u CounterAdd s = Some s' \<longleftrightarrow>
     (\<exists>v. counter s = CAdd v \<and>
       s' = s\<lparr>taskCounter := taskCounter s + v, counter := CRecv, hist := hist s @ [EvCount]\<rparr>)"
  by (auto simp: record_ev_def split: cstate.splits)

lemmas step_iffs = step_Request_iff step_Acquire_iff step_Send_iff step_Respond_iff
  step_WaitReturn_iff step_Dequeue_iff step_Register_iff step_Launch_iff step_Process_iff
  step_Signal_iff step_Finish_iff step_CounterAdd_iff

lemma wsum_ge_nth: "(\<And>x. 0 \<le> f x) \<Longrightarrow> j < length xs \<Longrightarrow> f (xs ! j) \<le> wsum f xs"
proof (induction xs arbitrary: j)
  case Nil
  then show ?case by simp
next
  case (Cons x xs)
  have "0 \<le> f x" "0 \<le> wsum f xs"
    using Cons.prems(1) wsum_nonneg[of f xs] by auto
  show ?case
  proof (cases j)
    case 0
    with \<open>0 \<le> wsum f xs\<close> show ?thesis by (simp add: wsum_def)
  next
    case (Suc i)
    with Cons.prems(2) have "f (xs ! i) \<le> wsum f xs"
      by (intro Cons.IH Cons.prems(1)) simp
    with Suc \<open>0 \<le> f x\<close> show ?thesis by (simp add: wsum_def)
  qed
qed

lemma run_append:
  "run u (as @ bs) s = (case run u as s of None \<Rightarrow> None | Some s' \<Rightarrow> run u bs s')"
  by (induction as arbitrary: s) (auto split: option.splits)

lemma run_invariant:
  assumes "run u as s = Some s'" and "P s"
    and "\<And>a x y. P x \<Longrightarrow> step u a x = Some y \<Longrightarrow> P y"
  shows "P s'"
  using assms(1,2)
proof (induction as arbitrary: s)
  case Nil
  then show ?case by simp
next
  case (Cons a as)
  then show ?case by (auto split: option.splits intro: assms(3))
qed

lemma map_fst_update: "map fst (xs[j := (fst (xs ! j), l)]) = map fst xs"
proof (cases "j < length xs")
  case True
  then show ?thesis by (simp add: map_update list_update_same_conv)
next
  case False
  then show ?thesis by (simp add: list_update_beyond)
qed

declare step.simps [simp del]

lemmas count_simps = count_loc_def wsum_append wsum_update wsum_single wsum_Nil indicator_def

subsection \<open>The WaitGroup counter\<close>

lemma inv_wg_step: "inv_wg s \<Longrightarrow> step u a s = Some s' \<Longrightarrow> inv_wg s'"
  by (cases a) (auto simp: inv_wg_def step_iffs count_simps registered_def)

lemma inv_wg_init: "inv_wg init"
  by (simp add: inv_wg_def init_def count_simps)

lemma inv_pool_step: "inv_pool s \<Longrightarrow> step u a s = Some s' \<Longrightarrow> inv_pool s'"
  by (cases a) (auto simp: inv_pool_def step_iffs count_simps held_def)

lemma inv_pool_init: "inv_pool init"
  by (simp add: inv_pool_def init_def count_simps)

lemma inv_counter_step: "inv_counter s \<Longrightarrow> step u a s = Some s' \<Longrightarrow> inv_counter s'"
  by (cases a) (auto simp: inv_counter_def step_iffs)

lemma inv_counter_init: "inv_counter init"
  by (simp add: inv_counter_def init_def)

lemma inv_hist_step: "inv_counter s \<Longrightarrow> inv_hist s \<Longrightarrow> step u a s = Some s' \<Longrightarrow> inv_hist s'"
  by (cases a)
     (auto simp: inv_hist_def inv_counter_def step_iffs occurrences_def is_EvAdd_def is_EvDone_def
        is_EvSignal_def pending_add_def)

lemma inv_hist_init: "inv_hist init"
  by (simp add: inv_hist_def init_def occurrences_def pending_add_def)

lemma inv_total_step: "inv_counter s \<Longrightarrow> inv_total s \<Longrightarrow> step u a s = Some s' \<Longrightarrow> inv_total s'"
  by (cases a)
     (auto simp: inv_total_def inv_counter_def step_iffs count_simps unsignalled_def
        enq_tasks_def enq_of_def pending_add_def)

lemma inv_total_init: "inv_total init"
  by (simp add: inv_total_def init_def count_simps enq_tasks_def pending_add_def)

lemma inv_fifo_step: "inv_fifo s \<Longrightarrow> step u a s = Some s' \<Longrightarrow> inv_fifo s'"
  by (cases a)
     (auto simp: inv_fifo_def step_iffs enq_tasks_def deq_tasks_def enq_of_def deq_of_def
        map_fst_update capacity_def)

lemma inv_fifo_init: "inv_fifo init"
  by (simp add: inv_fifo_def init_def enq_tasks_def deq_tasks_def)

lemma life_prefix: "life j t l = take (stage l) (lifecycle j t)"
  by (cases l) (simp_all add: lifecycle_def)

lemma inv_life_step: "inv_life s \<Longrightarrow> step u a s = Some s' \<Longrightarrow> inv_life s'"
  by (cases a)
     (auto simp: inv_life_def step_iffs proj_def about_def nth_list_update nth_append)

lemma inv_life_init: "inv_life init"
  by (simp add: inv_life_def init_def proj_def)

lemma processTask_prints: "CounterIncremented n \<notin> set (printed (processTask got t))"
  by (simp add: processTask_def split: sum.splits)

lemma inv_stdout_step: "inv_stdout s \<Longrightarrow> step u a s = Some s' \<Longrightarrow> inv_stdout s'"
  by (cases a) (auto simp: inv_stdout_def step_iffs processTask_prints)

lemma inv_stdout_init: "inv_stdout init"
  by (simp add: inv_stdout_def init_def)

lemma arrive_not_loop: "\<not> is_loop (rq, arrive u rq s)"
  by (auto simp: is_loop_def arrive_def runHandler_def handleRun_def countHandler_def
      split: request.splits option.splits)

lemma indicator_nonneg: "0 \<le> indicator P x"
  by (simp add: indicator_def)

lemma inv_mu_step:
  assumes "inv_mu s" and "step u a s = Some s'"
  shows "inv_mu s'"
proof (cases a)
  case (Respond k)
  with assms(2) obtain t i c where k: "k < length (handlers s)"
    and h: "snd (handlers s ! k) = HRunLoop t i c"
    and s': "s' = s\<lparr>messagesMu := False,
              handlers := (handlers s)[k := (fst (handlers s ! k),
                             HDone (StatusAccepted, StatusJSON ''tasks queued''))]\<rparr>"
    by (auto simp: step_iffs)
  have "indicator is_loop (handlers s ! k) = 1"
    using h by (simp add: indicator_def is_loop_def)
  moreover have "indicator is_loop (handlers s ! k) \<le> wsum (indicator is_loop) (handlers s)"
    using k by (intro wsum_ge_nth indicator_nonneg)
  ultimately have "wsum (indicator is_loop) (handlers s) = 1"
    using assms(1) by (auto simp: inv_mu_def split: if_splits)
  then show ?thesis
    using k h s' by (simp add: inv_mu_def wsum_update indicator_def is_loop_def)
qed (use assms in \<open>auto simp: inv_mu_def step_iffs wsum_update wsum_append wsum_single
      indicator_def is_loop_def arrive_not_loop[unfolded is_loop_def, simplified]\<close>)

lemma inv_mu_init: "inv_mu init"
  by (simp add: inv_mu_def init_def wsum_Nil)

lemma handler_ok_arrive: "handler_ok u [] (rq, arrive u rq s)"
  by (auto simp: handler_ok_def arrive_def runHandler_def handleRun_def countHandler_def
      split: request.splits option.splits)

lemma sends_of_snoc: "sends_of k (h @ [e]) = sends_of k h @ enq_by k e"
  by (simp add: sends_of_def)

lemma handler_ok_Acquire:
  "handler_ok u sent (rq, HRunLock t c) \<Longrightarrow> handler_ok u sent (rq, HRunLoop t 0 c)"
  by (auto simp: handler_ok_def split: request.splits)

lemma handler_ok_Send:
  "handler_ok u sent (rq, HRunLoop t i c) \<Longrightarrow> i < c \<Longrightarrow>
   handler_ok u (sent @ [t]) (rq, HRunLoop t (i + 1) c)"
  by (auto simp: handler_ok_def nat_add_distrib replicate_append_same split: request.splits)

lemma handler_ok_Respond:
  "handler_ok u sent (rq, HRunLoop t i c) \<Longrightarrow> \<not> i < c \<Longrightarrow>
   handler_ok u sent (rq, HDone (StatusAccepted, StatusJSON ''tasks queued''))"
  by (auto simp: handler_ok_def max_def split: request.splits if_splits)

lemma handler_ok_WaitReturn:
  "handler_ok u sent (rq, HWait) \<Longrightarrow>
   handler_ok u sent (rq, HDone (StatusOK, StatusJSON ''all tasks completed''))"
  by (auto simp: handler_ok_def split: request.splits)

lemma inv_handlers_update:
  assumes inv: "inv_handlers u s" and k: "k < length (handlers s)"
    and new: "handler_ok u (sends_of k (hist s) @ extra) (fst (handlers s ! k), h')"
    and hs: "handlers s' = (handlers s)[k := (fst (handlers s ! k), h')]"
    and hist: "\<And>k'. sends_of k' (hist s') = sends_of k' (hist s) @ (if k' = k then extra else [])"
  shows "inv_handlers u s'"
  unfolding inv_handlers_def
proof
  fix k'
  show "if k' < length (handlers s') then handler_ok u (sends_of k' (hist s')) (handlers s' ! k')
        else sends_of k' (hist s') = []"
  proof (cases "k' = k")
    case True
    then show ?thesis using k new hs hist[of k] by simp
  next
    case False
    then show ?thesis
      using inv[unfolded inv_handlers_def, rule_format, of k'] hs hist[of k'] by simp
  qed
qed

lemma handler_at:
  "k < length (handlers s) \<Longrightarrow> snd (handlers s ! k) = h \<Longrightarrow>
   inv_handlers u s \<Longrightarrow> handler_ok u (sends_of k (hist s)) (fst (handlers s ! k), h)"
  unfolding inv_handlers_def by (metis prod.collapse)

lemma inv_handlers_step:
  assumes "inv_handlers u s" and "step u a s = Some s'"
  shows "inv_handlers u s'"
proof (cases a)
  case (Request rq)
  then show ?thesis
    using assms handler_ok_arrive[of u rq s]
    by (auto simp: inv_handlers_def step_iffs nth_append)
next
  case (Acquire k)
  with assms(2) obtain t c where k: "k < length (handlers s)"
    and h: "snd (handlers s ! k) = HRunLock t c"
    and s': "s' = s\<lparr>messagesMu := True,
              handlers := (handlers s)[k := (fst (handlers s ! k), HRunLoop t 0 c)]\<rparr>"
    by (auto simp: step_iffs)
  show ?thesis
    by (rule inv_handlers_update[OF assms(1) k, where extra = "[]" and h' = "HRunLoop t 0 c"])
       (use handler_ok_Acquire[OF handler_at[OF k h assms(1)]] s' in simp_all)
next
  case (Send k)
  with assms(2) obtain t i c where k: "k < length (handlers s)"
    and h: "snd (handlers s ! k) = HRunLoop t i c" and i: "i < c"
    and s': "s' = s\<lparr>taskQueue := taskQueue s @ [t],
              handlers := (handlers s)[k := (fst (handlers s ! k), HRunLoop t (i + 1) c)],
              hist := hist s @ [EvEnq k t]\<rparr>"
    by (auto simp: step_iffs)
  show ?thesis
    by (rule inv_handlers_update[OF assms(1) k, where extra = "[t]" and h' = "HRunLoop t (i + 1) c"])
       (use handler_ok_Send[OF handler_at[OF k h assms(1)] i] s' in
         \<open>simp_all add: sends_of_snoc enq_by_def\<close>)
next
  case (Respond k)
  with assms(2) obtain t i c where k: "k < length (handlers s)"
    and h: "snd (handlers s ! k) = HRunLoop t i c" and i: "\<not> i < c"
    and s': "s' = s\<lparr>messagesMu := False,
              handlers := (handlers s)[k := (fst (handlers s ! k),
                             HDone (StatusAccepted, StatusJSON ''tasks queued''))]\<rparr>"
    by (auto simp: step_iffs)
  show ?thesis
    by (rule inv_handlers_update[OF assms(1) k, where extra = "[]"
          and h' = "HDone (StatusAccepted, StatusJSON ''tasks queued'')"])
       (use handler_ok_Respond[OF handler_at[OF k h assms(1)] i] s' in simp_all)
next
  case (WaitReturn k)
  with assms(2) have k: "k < length (handlers s)"
    and h: "snd (handlers s ! k) = HWait"
    and s': "s' = s\<lparr>handlers := (handlers s)[k := (fst (handlers s ! k),
                             HDone (StatusOK, StatusJSON ''all tasks completed''))]\<rparr>"
    by (auto simp: step_iffs)
  show ?thesis
    by (rule inv_handlers_update[OF assms(1) k, where extra = "[]"
          and h' = "HDone (StatusOK, StatusJSON ''all tasks completed'')"])
       (use handler_ok_WaitReturn[OF handler_at[OF k h assms(1)]] s' in simp_all)
qed (use assms in \<open>auto simp: inv_handlers_def step_iffs sends_of_snoc enq_by_def\<close>)

lemma inv_handlers_init: "inv_handlers u init"
  by (simp add: inv_handlers_def init_def sends_of_def)

subsection \<open>The number of actions ahead\<close>

lemma hweight_nonneg: "0 \<le> hweight x"
  by (simp add: hweight_def split: hstate.splits)

lemma lweight_nonneg: "0 \<le> lweight l"
  by (cases l) simp_all

lemma remaining_nonneg: "0 \<le> remaining s"
  unfolding remaining_def
  by (intro add_nonneg_nonneg wsum_nonneg hweight_nonneg lweight_nonneg)
     (simp_all add: pending_add_def split: cstate.splits)

lemma remaining_step:
  "internal a \<Longrightarrow> step u a s = Some s' \<Longrightarrow> remaining s' = remaining s - 1"
  by (cases a)
     (auto simp: step_iffs remaining_def wsum_update wsum_append wsum_single hweight_def
        pending_add_def)

lemma remaining_run:
  "list_all internal as \<Longrightarrow> run u as s = Some s' \<Longrightarrow> remaining s' = remaining s - int (length as)"
proof (induction as arbitrary: s)
  case Nil
  then show ?case by simp
next
  case (Cons a as)
  from Cons.prems obtain s1 where s1: "step u a s = Some s1" "run u as s1 = Some s'"
    by (auto split: option.splits)
  from Cons.prems(1) have "internal a" "list_all internal as" by simp_all
  with Cons.IH[OF _ s1(2)] remaining_step[OF _ s1(1)] show ?case by simp
qed

section \<open>Properties of the sequential functions\<close>

lemma parse_digits_all_digits:
  "parse_digits cs n = Some m \<Longrightarrow> list_all is_digit cs"
  by (induction cs arbitrary: n) (auto split: if_splits)

lemma Atoi_Some_shape:
  assumes "Atoi s = Some v"
  shows "s \<noteq> [] \<and> int64_range v \<and>
         (list_all is_digit s \<or> (hd s = CHR ''-'' \<or> hd s = CHR ''+'') \<and> list_all is_digit (tl s))"
  using assms
  by (cases s)
     (auto simp: Atoi_def Let_def dest: parse_digits_all_digits
           split: if_splits option.splits)

section \<open>The claims\<close>

text \<open>
  C10. A GET or a DELETE on \<open>/messages/{id}\<close> whose path after \<open>/messages/\<close> is not an
  integer that \<open>strconv.Atoi\<close> parses is answered with 400 and the text
  \<open>Invalid message ID\<close>, not with 404, and the store is the one before the request.
\<close>

theorem invalid_message_id_bad_request:
  assumes "method = ''GET'' \<or> method = ''DELETE''"
    and "path = messages_prefix @ suffix"
    and "Atoi suffix = None"
  shows "messageHandler unmarshal method path read st =
           Some ((StatusBadRequest, ErrorText ''Invalid message ID''), st)
         \<and> StatusBadRequest = 400 \<and> StatusBadRequest \<noteq> StatusNotFound"
  using assms
  by (auto simp: messageHandler_def handleGetMessage_def handleDeleteMessage_def
      StatusBadRequest_def StatusNotFound_def)

theorem invalid_message_id_bad_request_witness:
  "Atoi ''12x'' = None \<and>
   messageHandler (\<lambda>b. None) ''DELETE'' ''/messages/12x'' None
       \<lparr>messages = Map.empty(12 \<mapsto> \<lparr>Message_ID = 12, Message_Message = ''hi'',
            Message_Task = \<lparr>Task_ID = 0, Task_Task = [], Task_URL = [], Task_SleepDuration = 0\<rparr>\<rparr>),
         nextID = 13\<rparr> =
     Some ((400, ErrorText ''Invalid message ID''),
       \<lparr>messages = Map.empty(12 \<mapsto> \<lparr>Message_ID = 12, Message_Message = ''hi'',
            Message_Task = \<lparr>Task_ID = 0, Task_Task = [], Task_URL = [], Task_SleepDuration = 0\<rparr>\<rparr>),
         nextID = 13\<rparr>)"
proof -
  have a: "Atoi ''12x'' = None"
    by (simp add: Atoi_def is_digit_def)
  have p: "''/messages/12x'' = messages_prefix @ ''12x''"
    by (simp add: messages_prefix_def)
  show ?thesis
    using a invalid_message_id_bad_request[OF disjI2[OF refl] p a]
    by (simp add: StatusBadRequest_def)
qed

end
